theory Spec2Isabelle
  imports Complex_Main
begin

section \<open>Data model of the rate-limit plugin (src/src/index.ts)\<close>

text \<open>
  The finite JavaScript numbers are modelled as rationals: every number the plugin handles
  is a millisecond timestamp, a configured threshold or a value obtained from them by
  addition, subtraction, multiplication by 1000 and division by 1000. The cooldown
  arithmetic is rounded as IEEE doubles round (section Double arithmetic); the daily
  counter is decremented exactly, as doubles do for the integers below \<open>2 ^ 53\<close>.
\<close>

type_synonym number = rat

text \<open>\<^verbatim>\<open>type Scope = 'platform' | 'channel' | 'user'\<close>\<close>

datatype Scope = Platform | Channel | User

text \<open>\<^verbatim>\<open>type Action = 'block' | 'limit' | 'ignore'\<close>\<close>

datatype Action = Block | Limit | Ignore

text \<open>
  The only arithmetic of the source that can leave the finite numbers is
  \<^verbatim>\<open>record.dailyUsesLeft--\<close> on a record whose field is unset: it stores NaN.
  The field therefore ranges over the finite numbers and NaN.
\<close>

datatype counter = Finite number | NaN

text \<open>\<^verbatim>\<open>interface UsageRecord\<close>: three optional fields.\<close>

record UsageRecord =
  cooldownExpiresAt :: "number option"
  dailyUsesLeft :: "counter option"
  dailyResetAt :: "number option"

text \<open>\<^verbatim>\<open>interface CommandFilterRule\<close>; its action is \<^verbatim>\<open>'block' | 'ignore'\<close>.\<close>

datatype RuleType = RuleUser | RuleChannel

datatype RuleAction = RuleBlock | RuleIgnore

record CommandFilterRule =
  type :: RuleType
  content :: string
  action :: RuleAction

text \<open>\<^verbatim>\<open>interface Config\<close> of the plugin; both fields are optional in the source.\<close>

record Config =
  sendHint :: "bool option"
  commandRules :: "CommandFilterRule list option"

text \<open>
  The part of the host's session the plugin reads. Each identifier may be undefined.
\<close>

record Session =
  userId :: "string option"
  channelId :: "string option"
  platform :: "string option"

text \<open>
  A configuration value of the host is either a plain value or computed from the session;
  \<^verbatim>\<open>session.resolve\<close> yields the value for this session.
\<close>

datatype 'a Computed = Static 'a | Dynamic "Session \<Rightarrow> 'a"

fun resolve :: "Session \<Rightarrow> 'a Computed \<Rightarrow> 'a" where
  "resolve s (Static v) = v"
| "resolve s (Dynamic f) = f s"

text \<open>The three options the plugin adds to \<^verbatim>\<open>Command.Config\<close>.\<close>

record CommandConfig =
  maxDayUsage :: "number Computed"
  minInterval :: "number Computed"
  scope :: "Scope Computed"

text \<open>A command node of the host: its dotted name, its options and its parent, if any.\<close>

datatype Command = Command (name: string) (config: CommandConfig) (parent: "Command option")

text \<open>
  The clock as one invocation reads it: \<^verbatim>\<open>Date.now()\<close> and the next local midnight
  \<^verbatim>\<open>new Date().setHours(24, 0, 0, 0)\<close>. The hook is synchronous, so one reading serves
  a whole invocation.
\<close>

record Clock =
  now :: number
  tomorrow :: number

text \<open>\<^verbatim>\<open>commandRecords\<close> and \<^verbatim>\<open>rules\<close>: maps keyed by strings.\<close>

type_synonym Records = "string \<rightharpoonup> UsageRecord"

type_synonym Rules = "string \<rightharpoonup> Action"

section \<open>Double arithmetic\<close>

text \<open>
  The result of an arithmetic operation on doubles is the exact result rounded to the
  nearest number with a 53-bit significand, ties to the even significand. Overflow to
  infinity and the subnormal range are not modelled.
\<close>

function bitLength :: "int \<Rightarrow> int" where
  "bitLength a = (if a \<le> 0 then 0 else 1 + bitLength (a div 2))"
  by pat_completeness auto
termination
  by (relation "measure nat") auto

declare bitLength.simps [simp del]

text \<open>The binary exponent of a number other than 0: the \<open>e\<close> with \<open>2 ^ e \<le> |x| < 2 ^ (e + 1)\<close>.\<close>

definition exponent :: "number \<Rightarrow> int" where
  "exponent x =
     (case quotient_of \<bar>x\<bar> of
        (a, b) \<Rightarrow>
          let e = bitLength a - bitLength b
          in if 2 powi e \<le> \<bar>x\<bar> then e else e - 1)"

definition roundEven :: "number \<Rightarrow> int" where
  "roundEven y =
     (let f = \<lfloor>y\<rfloor>; r = y - of_int f
      in if r < 1 / 2 then f
         else if 1 / 2 < r then f + 1
         else if even f then f else f + 1)"

definition double :: "number \<Rightarrow> number" where
  "double x =
     (if x = 0 then 0
      else let q = 2 powi (exponent x - 52) in of_int (roundEven (x / q)) * q)"

section \<open>Strings\<close>

text \<open>A template literal renders an undefined value as the text \<^verbatim>\<open>undefined\<close>.\<close>

definition template :: "string option \<Rightarrow> string" where
  "template v = (case v of None \<Rightarrow> ''undefined'' | Some s \<Rightarrow> s)"

definition scopeString :: "Scope \<Rightarrow> string" where
  "scopeString sc = (case sc of Platform \<Rightarrow> ''platform'' | Channel \<Rightarrow> ''channel'' | User \<Rightarrow> ''user'')"

definition ruleTypeString :: "RuleType \<Rightarrow> string" where
  "ruleTypeString t = (case t of RuleUser \<Rightarrow> ''user'' | RuleChannel \<Rightarrow> ''channel'')"

definition ruleAction :: "RuleAction \<Rightarrow> Action" where
  "ruleAction a = (case a of RuleBlock \<Rightarrow> Block | RuleIgnore \<Rightarrow> Ignore)"

text \<open>The decimal digits of a non-negative integer, and of an integer with its sign.\<close>

definition digitChar :: "nat \<Rightarrow> char" where
  "digitChar d = char_of (48 + d)"

function showNat :: "int \<Rightarrow> string" where
  "showNat n =
     (if n < 10 then [digitChar (nat n)]
      else showNat (n div 10) @ [digitChar (nat (n mod 10))])"
  by pat_completeness auto
termination
  by (relation "measure nat") auto

declare showNat.simps [simp del]

definition showInt :: "int \<Rightarrow> string" where
  "showInt i = (if i < 0 then CHR ''-'' # showNat (- i) else showNat i)"

text \<open>
  From \<open>10 ^ 21\<close> on a template literal prints a number in exponent notation, with the
  fewest significant digits that still round to the number: the candidates with \<open>k\<close>
  digits are \<open>s * 10 ^ p\<close> for the two \<open>s\<close> around the number, the nearer one is
  taken, and the first \<open>k\<close> that has a candidate wins (17 digits always do for a double).
\<close>

definition roundsTo :: "int \<Rightarrow> int \<times> nat \<Rightarrow> bool" where
  "roundsTo v c = (case c of (s, p) \<Rightarrow> double (of_int (s * 10 ^ p)) = of_int v)"

definition closer :: "int \<Rightarrow> int \<times> nat \<Rightarrow> int \<times> nat \<Rightarrow> int \<times> nat" where
  "closer v c c' =
     (case (c, c') of
        ((s, p), (s', p')) \<Rightarrow>
          let d = \<bar>s * 10 ^ p - v\<bar>; d' = \<bar>s' * 10 ^ p' - v\<bar>
          in if d < d' then c else if d' < d then c' else if even s then c else c')"

definition candidates :: "int \<Rightarrow> nat \<Rightarrow> (int \<times> nat) list" where
  "candidates v k =
     (let p = length (showNat v) - k; s = v div 10 ^ p
      in filter (roundsTo v) [(s, p), (s + 1, p)])"

definition shortest :: "int \<Rightarrow> int \<times> nat" where
  "shortest v =
     (case concat (map (\<lambda>k. case candidates v k of
                                 [] \<Rightarrow> []
                               | [c] \<Rightarrow> [c]
                               | c # c' # _ \<Rightarrow> [closer v c c']) [1..<18]) of
        [] \<Rightarrow> (v, 0)
      | c # _ \<Rightarrow> c)"

definition stripZeros :: "string \<Rightarrow> string" where
  "stripZeros ds = rev (dropWhile (\<lambda>c. c = CHR ''0'') (rev ds))"

definition exponential :: "int \<Rightarrow> string" where
  "exponential v =
     (case shortest v of
        (s, p) \<Rightarrow>
          let ds = showNat s; e = int p + int (length ds) - 1
          in (case stripZeros ds of
                [] \<Rightarrow> []
              | d # rest \<Rightarrow>
                  d # (if rest = [] then [] else CHR ''.'' # rest) @ ''e+'' @ showNat e))"

text \<open>An integer-valued number as a template literal prints it.\<close>

definition showNumber :: "int \<Rightarrow> string" where
  "showNumber v =
     (if \<bar>v\<bar> < 10 ^ 21 then showInt v
      else if v < 0 then CHR ''-'' # exponential (- v) else exponential v)"

text \<open>
  The two hint texts of \<^verbatim>\<open>checkRateLimit\<close>, as their UTF-8 bytes: the cooldown hint with
  the remaining seconds between its two parts, and the quota hint.
\<close>

definition hintCooldownPrefix :: string where
  "hintCooldownPrefix =
    [CHR 0xE6, CHR 0x93, CHR 0x8D, CHR 0xE4, CHR 0xBD, CHR 0x9C, CHR 0xE8, CHR 0xBF, CHR 0x87,
     CHR 0xE4, CHR 0xBA, CHR 0x8E, CHR 0xE9, CHR 0xA2, CHR 0x91, CHR 0xE7, CHR 0xB9, CHR 0x81,
     CHR 0xEF, CHR 0xBC, CHR 0x8C, CHR 0xE8, CHR 0xAF, CHR 0xB7, CHR 0x20]"

definition hintCooldownSuffix :: string where
  "hintCooldownSuffix =
    [CHR 0x20, CHR 0xE7, CHR 0xA7, CHR 0x92, CHR 0xE5, CHR 0x90, CHR 0x8E, CHR 0xE9, CHR 0x87,
     CHR 0x8D, CHR 0xE8, CHR 0xAF, CHR 0x95]"

definition hintCooldown :: "int \<Rightarrow> string" where
  "hintCooldown remaining = hintCooldownPrefix @ showNumber remaining @ hintCooldownSuffix"

definition hintQuota :: string where
  "hintQuota =
    [CHR 0xE4, CHR 0xBD, CHR 0xBF, CHR 0xE7, CHR 0x94, CHR 0xA8, CHR 0xE5, CHR 0xB7, CHR 0xB2,
     CHR 0xE8, CHR 0xBE, CHR 0xBE, CHR 0xE4, CHR 0xB8, CHR 0x8A, CHR 0xE9, CHR 0x99, CHR 0x90,
     CHR 0xEF, CHR 0xBC, CHR 0x8C, CHR 0xE8, CHR 0xAF, CHR 0xB7, CHR 0xE6, CHR 0x98, CHR 0x8E,
     CHR 0xE6, CHR 0x97, CHR 0xA5, CHR 0xE5, CHR 0x86, CHR 0x8D, CHR 0xE8, CHR 0xAF, CHR 0x95]"

section \<open>The plugin\<close>

text \<open>
  \<^verbatim>\<open>for (const rule of config.commandRules ?? []) rules.set(`${rule.type}:${rule.content}`, rule.action)\<close>
\<close>

definition ruleKey :: "CommandFilterRule \<Rightarrow> string" where
  "ruleKey rule = ruleTypeString (type rule) @ '':'' @ content rule"

definition buildRules :: "Config \<Rightarrow> Rules" where
  "buildRules cfg =
     foldl (\<lambda>rules rule. rules(ruleKey rule \<mapsto> ruleAction (action rule))) Map.empty
       (case commandRules cfg of None \<Rightarrow> [] | Some rs \<Rightarrow> rs)"

text \<open>\<^verbatim>\<open>getRecordKey\<close>: the session's identifier for the scope, possibly undefined.\<close>

definition getRecordKey :: "Session \<Rightarrow> Scope \<Rightarrow> string option" where
  "getRecordKey session sc =
     (case sc of User \<Rightarrow> userId session | Channel \<Rightarrow> channelId session | Platform \<Rightarrow> platform session)"

text \<open>
  Truthiness of an optional number (\<^verbatim>\<open>record.cooldownExpiresAt && ...\<close>,
  \<^verbatim>\<open>!record.dailyResetAt\<close>): undefined and 0 are falsy.
\<close>

definition truthy :: "number option \<Rightarrow> bool" where
  "truthy v = (case v of None \<Rightarrow> False | Some x \<Rightarrow> x \<noteq> 0)"

text \<open>\<^verbatim>\<open>v > now\<close> and \<^verbatim>\<open>now > v\<close> for an optional number: false when undefined.\<close>

definition isAfter :: "number option \<Rightarrow> number \<Rightarrow> bool" where
  "isAfter v t = (case v of None \<Rightarrow> False | Some x \<Rightarrow> x > t)"

definition isBefore :: "number option \<Rightarrow> number \<Rightarrow> bool" where
  "isBefore v t = (case v of None \<Rightarrow> False | Some x \<Rightarrow> t > x)"

text \<open>\<^verbatim>\<open>record.dailyUsesLeft <= 0\<close>: false when the field is undefined or NaN.\<close>

definition usesExhausted :: "counter option \<Rightarrow> bool" where
  "usesExhausted v = (case v of None \<Rightarrow> False | Some NaN \<Rightarrow> False | Some (Finite x) \<Rightarrow> x \<le> 0)"

text \<open>\<^verbatim>\<open>record.dailyUsesLeft--\<close>: NaN when the field is undefined or NaN.\<close>

definition decrement :: "counter option \<Rightarrow> counter option" where
  "decrement v = (case v of None \<Rightarrow> Some NaN | Some NaN \<Rightarrow> Some NaN | Some (Finite x) \<Rightarrow> Some (Finite (x - 1)))"

text \<open>\<^verbatim>\<open>Math.ceil((record.cooldownExpiresAt - now) / 1000)\<close>, reached only with the field set.\<close>

definition remainingSeconds :: "number option \<Rightarrow> number \<Rightarrow> int" where
  "remainingSeconds v t =
     (case v of None \<Rightarrow> 0 | Some x \<Rightarrow> \<lceil>double (double (x - t) / 1000)\<rceil>)"

definition emptyRecord :: UsageRecord where
  "emptyRecord = \<lparr>cooldownExpiresAt = None, dailyUsesLeft = None, dailyResetAt = None\<rparr>"

text \<open>
  The window reset of \<^verbatim>\<open>checkRateLimit\<close> (the inner \<^verbatim>\<open>if\<close> of the quota check).
\<close>

definition resetWindow :: "Clock \<Rightarrow> number \<Rightarrow> UsageRecord \<Rightarrow> UsageRecord" where
  "resetWindow clk maxDay record =
     (if \<not> truthy (dailyResetAt record) \<or> isBefore (dailyResetAt record) (now clk)
      then record\<lparr>dailyResetAt := Some (tomorrow clk), dailyUsesLeft := Some (Finite maxDay)\<rparr>
      else record)"

text \<open>
  \<^verbatim>\<open>checkRateLimit\<close>. The result is the hint when the call is limited and undefined
  (\<open>None\<close>) otherwise, with the records as the call leaves them. The record is looked up
  by reference: the window reset writes into a stored record at once, also on the path that
  then returns the quota hint, while a fresh record reaches the map only at the final
  \<^verbatim>\<open>commandRecords.set\<close>.
\<close>

definition checkRateLimit ::
  "Clock \<Rightarrow> Session \<Rightarrow> string \<Rightarrow> Scope \<Rightarrow> number \<Rightarrow> number \<Rightarrow> Records \<Rightarrow> string option \<times> Records" where
  "checkRateLimit clk session commandName sc minInt maxDay commandRecords =
     (case getRecordKey session sc of
        None \<Rightarrow> (None, commandRecords)
      | Some key \<Rightarrow>
          if key = [] then (None, commandRecords)
          else
            let recordId = scopeString sc @ '':'' @ key @ '':'' @ commandName;
                record = (case commandRecords recordId of None \<Rightarrow> emptyRecord | Some r \<Rightarrow> r)
            in
              if minInt > 0 \<and> truthy (cooldownExpiresAt record)
                  \<and> isAfter (cooldownExpiresAt record) (now clk)
              then (Some (hintCooldown (remainingSeconds (cooldownExpiresAt record) (now clk))),
                    commandRecords)
              else
                let record1 = (if maxDay > 0 then resetWindow clk maxDay record else record)
                in
                  if maxDay > 0 \<and> usesExhausted (dailyUsesLeft record1)
                  then (Some hintQuota,
                        (case commandRecords recordId of
                           None \<Rightarrow> commandRecords
                         | Some r \<Rightarrow> commandRecords(recordId \<mapsto> record1)))
                  else
                    let record2 = (if minInt > 0
                                   then record1\<lparr>cooldownExpiresAt :=
                                            Some (double (now clk + double (minInt * 1000)))\<rparr>
                                   else record1);
                        record3 = (if maxDay > 0
                                   then record2\<lparr>dailyUsesLeft := decrement (dailyUsesLeft record2)\<rparr>
                                   else record2)
                    in (None, commandRecords(recordId \<mapsto> record3)))"

text \<open>\<^verbatim>\<open>getEffectiveAction\<close>: the user's rule, else the channel's rule, else \<^verbatim>\<open>'limit'\<close>.\<close>

definition getEffectiveAction :: "Rules \<Rightarrow> Session \<Rightarrow> Action" where
  "getEffectiveAction rules session =
     (case rules (''user:'' @ template (userId session)) of
        Some a \<Rightarrow> a
      | None \<Rightarrow>
          (case rules (''channel:'' @ template (channelId session)) of
             Some a \<Rightarrow> a
           | None \<Rightarrow> Limit))"

text \<open>\<^verbatim>\<open>cmd.name.replace(/\./g, ':')\<close>\<close>

definition recordName :: "string \<Rightarrow> string" where
  "recordName n = map (\<lambda>c. if c = CHR ''.'' then CHR '':'' else c) n"

text \<open>
  The loop of the hook over the command and its parents, from the value of the loop
  variable \<^verbatim>\<open>cmd\<close> (\<open>None\<close> when it is null). A level whose two thresholds are both
  falsy is passed over; at any other level \<^verbatim>\<open>checkRateLimit\<close> runs, a truthy result
  (a non-empty hint) ends the hook, and any other result moves on to the parent.
\<close>

fun walk :: "bool \<Rightarrow> Clock \<Rightarrow> Session \<Rightarrow> Command option \<Rightarrow> Records \<Rightarrow> string option \<times> Records" where
  "walk hint clk session None commandRecords = (None, commandRecords)"
| "walk hint clk session (Some (Command n cfg p)) commandRecords =
     (let minInt = resolve session (minInterval cfg);
          maxDay = resolve session (maxDayUsage cfg)
      in
        if minInt = 0 \<and> maxDay = 0 then walk hint clk session p commandRecords
        else
          (case checkRateLimit clk session (recordName n) (resolve session (scope cfg))
                  minInt maxDay commandRecords of
             (Some result, records') \<Rightarrow>
               if result \<noteq> [] then (Some (if hint then result else []), records')
               else walk hint clk session p records'
           | (None, records') \<Rightarrow> walk hint clk session p records'))"

text \<open>
  The \<^verbatim>\<open>before('command/execute')\<close> hook: undefined (\<open>None\<close>) lets the command run, a
  string cancels it, the empty string silently.
\<close>

definition beforeExecute ::
  "Config \<Rightarrow> Clock \<Rightarrow> Session \<Rightarrow> Command \<Rightarrow> Records \<Rightarrow> string option \<times> Records" where
  "beforeExecute cfg clk session command commandRecords =
     (case getEffectiveAction (buildRules cfg) session of
        Ignore \<Rightarrow> (None, commandRecords)
      | Block \<Rightarrow> (Some [], commandRecords)
      | Limit \<Rightarrow> walk (sendHint cfg = Some True) clk session (Some command) commandRecords)"

section \<open>Notions used to state the properties\<close>

text \<open>
  What the loop of the hook evaluates at one command: \<^verbatim>\<open>checkRateLimit\<close> on the resolved
  options of that command, under its name with the dots replaced.
\<close>

definition checkLevel :: "Clock \<Rightarrow> Session \<Rightarrow> Command \<Rightarrow> Records \<Rightarrow> string option \<times> Records" where
  "checkLevel clk session cmd records =
     checkRateLimit clk session (recordName (name cmd)) (resolve session (scope (config cmd)))
       (resolve session (minInterval (config cmd))) (resolve session (maxDayUsage (config cmd)))
       records"

text \<open>
  The nearest command, from the invoked one upwards, one of whose two thresholds resolves to
  a value other than 0.
\<close>

fun nearestActive :: "Session \<Rightarrow> Command option \<Rightarrow> Command option" where
  "nearestActive session None = None"
| "nearestActive session (Some (Command n cfg p)) =
     (if resolve session (minInterval cfg) = 0 \<and> resolve session (maxDayUsage cfg) = 0
      then nearestActive session p
      else Some (Command n cfg p))"

text \<open>The command chain: a command, its parent, and so on up to the root.\<close>

fun chain :: "Command option \<Rightarrow> Command list" where
  "chain None = []"
| "chain (Some (Command n cfg p)) = Command n cfg p # chain p"

text \<open>
  A sequence of calls of \<^verbatim>\<open>checkRateLimit\<close> for one session, command, scope and pair
  of thresholds, one call per clock reading: the results in order and the final records.
\<close>

fun callSequence ::
  "Session \<Rightarrow> string \<Rightarrow> Scope \<Rightarrow> number \<Rightarrow> number \<Rightarrow> Clock list \<Rightarrow> Records
   \<Rightarrow> string option list \<times> Records" where
  "callSequence session commandName sc minInt maxDay [] records = ([], records)"
| "callSequence session commandName sc minInt maxDay (clk # clks) records =
     (case checkRateLimit clk session commandName sc minInt maxDay records of
        (result, records') \<Rightarrow>
          (case callSequence session commandName sc minInt maxDay clks records' of
             (results, records'') \<Rightarrow> (result # results, records'')))"



text \<open>
  A sequence of invocations of the hook, each with its clock reading, session and command:
  the results in order and the final records.
\<close>

type_synonym Invocation = "Clock \<times> Session \<times> Command"

fun runHook :: "Config \<Rightarrow> Invocation list \<Rightarrow> Records \<Rightarrow> string option list \<times> Records" where
  "runHook cfg [] records = ([], records)"
| "runHook cfg ((clk, session, command) # rest) records =
     (case beforeExecute cfg clk session command records of
        (result, records') \<Rightarrow>
          (case runHook cfg rest records' of
             (results, records'') \<Rightarrow> (result # results, records'')))"

definition ignored :: "Config \<Rightarrow> Invocation \<Rightarrow> bool" where
  "ignored cfg invocation = (getEffectiveAction (buildRules cfg) (fst (snd invocation)) = Ignore)"

text \<open>A number that is a non-negative integer.\<close>

definition naturalNumber :: "number \<Rightarrow> bool" where
  "naturalNumber x = (0 \<le> x \<and> of_int \<lfloor>x\<rfloor> = x)"

text \<open>The remaining uses of a stored record, when present, are a non-negative integer.\<close>

definition usesLeftNatural :: "UsageRecord option \<Rightarrow> bool" where
  "usesLeftNatural r =
     (case r of
        None \<Rightarrow> True
      | Some stored \<Rightarrow>
          (case dailyUsesLeft stored of
             None \<Rightarrow> True
           | Some NaN \<Rightarrow> False
           | Some (Finite x) \<Rightarrow> naturalNumber x))"

text \<open>
  The same, and a record without remaining uses has no deadline either: the two fields are
  only ever written together.
\<close>

definition windowInv :: "UsageRecord option \<Rightarrow> bool" where
  "windowInv r =
     (case r of
        None \<Rightarrow> True
      | Some stored \<Rightarrow>
          (case dailyUsesLeft stored of
             None \<Rightarrow> dailyResetAt stored = None
           | Some NaN \<Rightarrow> False
           | Some (Finite x) \<Rightarrow> naturalNumber x))"

text \<open>
  Every command of the invocation's chain resolves \<^verbatim>\<open>maxDayUsage\<close> to a non-negative
  integer.
\<close>

definition quotasNatural :: "Invocation \<Rightarrow> bool" where
  "quotasNatural invocation =
     (case invocation of
        (clk, session, command) \<Rightarrow>
          list_all (\<lambda>level. naturalNumber (resolve session (maxDayUsage (config level))))
            (chain (Some command)))"

text \<open>The number that a string of decimal digits denotes.\<close>

definition readNat :: "string \<Rightarrow> int" where
  "readNat ds = foldl (\<lambda>a c. 10 * a + (int (of_char c) - 48)) 0 ds"

text \<open>
  The rule table as the specification words it: the last entry listed for a type and an
  identifier, and the action it gives to an identifier of the session, none when the
  session has no such identifier.
\<close>

definition lastRule :: "Config \<Rightarrow> RuleType \<Rightarrow> string \<Rightarrow> CommandFilterRule option" where
  "lastRule cfg t c =
     find (\<lambda>rule. type rule = t \<and> content rule = c)
       (rev (case commandRules cfg of None \<Rightarrow> [] | Some rs \<Rightarrow> rs))"

definition ruleFor :: "Config \<Rightarrow> RuleType \<Rightarrow> string option \<Rightarrow> Action option" where
  "ruleFor cfg t ident =
     (case ident of
        None \<Rightarrow> None
      | Some c \<Rightarrow> map_option (\<lambda>rule. ruleAction (action rule)) (lastRule cfg t c))"

section \<open>The inputs of the worked examples\<close>

definition exampleSession :: Session where
  "exampleSession = \<lparr>userId = Some ''U1'', channelId = Some ''c1'', platform = Some ''p''\<rparr>"

definition exampleNoChannel :: Session where
  "exampleNoChannel = \<lparr>userId = Some ''U1'', channelId = None, platform = Some ''p''\<rparr>"

definition exampleNoUser :: Session where
  "exampleNoUser = \<lparr>userId = None, channelId = Some ''c1'', platform = Some ''p''\<rparr>"

definition exampleClock :: Clock where
  "exampleClock = \<lparr>now = 1000, tomorrow = 86400000\<rparr>"

text \<open>A clock reading of the year 2023, used where the size of the timestamp matters.\<close>

definition exampleInstant :: Clock where
  "exampleInstant = \<lparr>now = 1700000000000, tomorrow = 1700006400000\<rparr>"

definition exampleConfig :: Config where
  "exampleConfig = \<lparr>sendHint = None, commandRules = None\<rparr>"

definition exampleHintConfig :: Config where
  "exampleHintConfig = \<lparr>sendHint = Some True, commandRules = None\<rparr>"

definition exampleIgnoreConfig :: Config where
  "exampleIgnoreConfig = \<lparr>sendHint = Some True, commandRules = Some
     [\<lparr>type = RuleChannel, content = ''c1'', action = RuleBlock\<rparr>,
      \<lparr>type = RuleUser, content = ''U1'', action = RuleIgnore\<rparr>]\<rparr>"

definition exampleBlockConfig :: Config where
  "exampleBlockConfig = \<lparr>sendHint = Some True, commandRules = Some
     [\<lparr>type = RuleUser, content = ''U1'', action = RuleBlock\<rparr>]\<rparr>"

definition exampleUndefinedRule :: Config where
  "exampleUndefinedRule = \<lparr>sendHint = None, commandRules = Some
     [\<lparr>type = RuleUser, content = ''undefined'', action = RuleBlock\<rparr>]\<rparr>"

definition exampleParent :: Command where
  "exampleParent = Command ''remind''
     \<lparr>maxDayUsage = Static 3, minInterval = Static 0, scope = Static User\<rparr> None"

definition exampleChild :: Command where
  "exampleChild = Command ''remind.add''
     \<lparr>maxDayUsage = Static 5, minInterval = Static 0, scope = Static User\<rparr> (Some exampleParent)"

definition exampleChannelChild :: Command where
  "exampleChannelChild = Command ''remind.add''
     \<lparr>maxDayUsage = Static 5, minInterval = Static 60, scope = Static Channel\<rparr>
     (Some exampleParent)"

definition exampleUnlimited :: Command where
  "exampleUnlimited = Command ''remind.list''
     \<lparr>maxDayUsage = Static 0, minInterval = Static 0, scope = Static User\<rparr> (Some exampleParent)"

text \<open>
  Records in which user U1 has used up \<^verbatim>\<open>remind\<close> for the day and is still cooling
  down at the time of \<open>exampleClock\<close>.
\<close>

definition exampleUsed :: Records where
  "exampleUsed = Map.empty(''user:U1:remind'' \<mapsto>
     \<lparr>cooldownExpiresAt = Some 60000, dailyUsesLeft = Some (Finite 0),
      dailyResetAt = Some 86400000\<rparr>)"

section \<open>Facts about the double arithmetic\<close>

lemma bitLength_nonneg: "0 \<le> bitLength a"
  by (induction a rule: bitLength.induct) (subst bitLength.simps, simp)

lemma bitLength_bounds:
  "0 < a \<Longrightarrow> 2 ^ nat (bitLength a - 1) \<le> a \<and> a < 2 ^ nat (bitLength a)"
proof (induction a rule: bitLength.induct)
  case (1 a)
  show ?case
  proof (cases "a = 1")
    case True
    have "bitLength 1 = 1"
      by (subst bitLength.simps, subst bitLength.simps) simp
    with True show ?thesis by simp
  next
    case False
    with "1.prems" have pos: "0 < a div 2" by simp
    from "1.IH" [OF _ pos] "1.prems"
    have lo: "2 ^ nat (bitLength (a div 2) - 1) \<le> a div 2"
      and hi: "a div 2 < 2 ^ nat (bitLength (a div 2))" by auto
    have bl: "bitLength a = 1 + bitLength (a div 2)"
      using "1.prems" by (subst bitLength.simps) simp
    have ge1: "1 \<le> bitLength (a div 2)"
      using pos by (subst bitLength.simps) (simp add: bitLength_nonneg)
    have n: "nat (bitLength a - 1) = Suc (nat (bitLength (a div 2) - 1))"
      "nat (bitLength a) = Suc (nat (bitLength (a div 2)))"
      using bl ge1 by auto
    have "2 * 2 ^ nat (bitLength (a div 2) - 1) \<le> a" using lo by linarith
    moreover have "a < 2 * 2 ^ nat (bitLength (a div 2))" using hi by linarith
    ultimately show ?thesis by (simp add: n)
  qed
qed


lemma exponent_le:
  assumes "x \<noteq> 0"
  shows "2 powi exponent x \<le> \<bar>x\<bar>"
proof -
  obtain a b where q: "quotient_of \<bar>x\<bar> = (a, b)" by (cases "quotient_of \<bar>x\<bar>") auto
  from quotient_of_denom_pos [OF q] have b: "0 < b" .
  from quotient_of_div [OF q] have x: "\<bar>x\<bar> = of_int a / of_int b" .
  from assms have "0 < \<bar>x\<bar>" by simp
  with x b have a: "0 < a" by (simp add: zero_less_divide_iff)
  let ?e = "bitLength a - bitLength b"
  show ?thesis
  proof (cases "2 powi ?e \<le> \<bar>x\<bar>")
    case True
    then show ?thesis by (simp add: exponent_def q)
  next
    case False
    then have e: "exponent x = ?e - 1" by (simp add: exponent_def q)
    from bitLength_bounds [OF a] have lo: "(2::int) ^ nat (bitLength a - 1) \<le> a" by simp
    from bitLength_bounds [OF b] have hi: "b < (2::int) ^ nat (bitLength b)" by simp
    have la: "1 \<le> bitLength a" using a by (subst bitLength.simps) (simp add: bitLength_nonneg)
    have lb: "0 \<le> bitLength b" by (rule bitLength_nonneg)
    have lo': "(2::rat) powi (bitLength a - 1) \<le> of_int a"
    proof -
      have "(2::rat) powi (bitLength a - 1) = 2 ^ nat (bitLength a - 1)"
        using la by (simp add: power_int_def)
      also have "\<dots> = of_int (2 ^ nat (bitLength a - 1))" by simp
      also have "\<dots> \<le> of_int a" using lo by (simp only: of_int_le_iff)
      finally show ?thesis .
    qed
    have hi': "of_int b \<le> (2::rat) powi bitLength b"
    proof -
      have "of_int b \<le> (of_int (2 ^ nat (bitLength b)) :: rat)"
        using hi by (simp only: of_int_le_iff less_imp_le)
      also have "\<dots> = 2 powi bitLength b" using lb by (simp add: power_int_def)
      finally show ?thesis .
    qed
    have "(2::rat) powi (?e - 1) = 2 powi (bitLength a - 1) / 2 powi bitLength b"
      using power_int_diff [of "2::rat" "bitLength a - 1" "bitLength b"]
      by (simp add: algebra_simps)
    also have "\<dots> \<le> of_int a / 2 powi bitLength b"
      using lo' by (simp add: divide_right_mono)
    also have "\<dots> \<le> of_int a / of_int b"
      using hi' a b by (simp add: frac_le)
    finally show ?thesis using e x by simp
  qed
qed

lemma exponent_less:
  assumes "x \<noteq> 0"
  shows "\<bar>x\<bar> < 2 powi (exponent x + 1)"
proof -
  obtain a b where q: "quotient_of \<bar>x\<bar> = (a, b)" by (cases "quotient_of \<bar>x\<bar>") auto
  from quotient_of_denom_pos [OF q] have b: "0 < b" .
  from quotient_of_div [OF q] have x: "\<bar>x\<bar> = of_int a / of_int b" .
  from assms have "0 < \<bar>x\<bar>" by simp
  with x b have a: "0 < a" by (simp add: zero_less_divide_iff)
  let ?e = "bitLength a - bitLength b"
  show ?thesis
  proof (cases "2 powi ?e \<le> \<bar>x\<bar>")
    case False
    then have "exponent x = ?e - 1" by (simp add: exponent_def q)
    with False show ?thesis by simp
  next
    case True
    then have e: "exponent x = ?e" by (simp add: exponent_def q)
    from bitLength_bounds [OF a] have hi: "a < (2::int) ^ nat (bitLength a)" by simp
    from bitLength_bounds [OF b] have lo: "(2::int) ^ nat (bitLength b - 1) \<le> b" by simp
    have la: "0 \<le> bitLength a" by (rule bitLength_nonneg)
    have lb: "1 \<le> bitLength b" using b by (subst bitLength.simps) (simp add: bitLength_nonneg)
    have hi': "of_int a < (2::rat) powi bitLength a"
    proof -
      have "(of_int a :: rat) < of_int (2 ^ nat (bitLength a))"
        using hi by (simp only: of_int_less_iff)
      also have "\<dots> = 2 powi bitLength a" using la by (simp add: power_int_def)
      finally show ?thesis .
    qed
    have lo': "(2::rat) powi (bitLength b - 1) \<le> of_int b"
    proof -
      have "(2::rat) powi (bitLength b - 1) = of_int (2 ^ nat (bitLength b - 1))"
        using lb by (simp add: power_int_def)
      also have "\<dots> \<le> of_int b" using lo by (simp only: of_int_le_iff)
      finally show ?thesis .
    qed
    have p: "(0::rat) < 2 powi (bitLength b - 1)" by (simp add: zero_less_power_int)
    have "of_int a / of_int b \<le> of_int a / (2::rat) powi (bitLength b - 1)"
      using lo' a p by (simp add: frac_le)
    also have "\<dots> < 2 powi bitLength a / 2 powi (bitLength b - 1)"
      using hi' p by (simp add: divide_strict_right_mono)
    also have "\<dots> = 2 powi (?e + 1)"
      using power_int_diff [of "2::rat" "bitLength a" "bitLength b - 1"]
      by (simp add: algebra_simps)
    finally show ?thesis using e x by simp
  qed
qed

text \<open>
  The rounding on known values: the double nearest to one tenth, and two ties at the end
  of the exactly represented integers.
\<close>

lemma double_tenth: "double (1 / 10) = 3602879701896397 / 36028797018963968"
  by code_simp

lemma double_ties_to_even: "double (2 ^ 53 + 1) = 2 ^ 53 \<and> double (2 ^ 53 + 3) = 2 ^ 53 + 4"
  by code_simp

lemma roundEven_error: "\<bar>of_int (roundEven y) - y\<bar> \<le> 1 / 2"
proof -
  let ?f = "\<lfloor>y\<rfloor>"
  have f: "of_int ?f \<le> y" "y < of_int ?f + 1" by linarith+
  consider "y - of_int ?f < 1 / 2" | "1 / 2 < y - of_int ?f" | "y - of_int ?f = 1 / 2"
    by linarith
  then show ?thesis
  proof cases
    case 1
    then have "roundEven y = ?f" by (simp add: roundEven_def)
    with 1 f show ?thesis by (simp add: abs_le_iff)
  next
    case 2
    then have "roundEven y = ?f + 1" by (simp add: roundEven_def)
    with 2 f show ?thesis by (simp add: abs_le_iff)
  next
    case 3
    then have "roundEven y = ?f \<or> roundEven y = ?f + 1" by (simp add: roundEven_def Let_def)
    with 3 f show ?thesis by (auto simp: abs_le_iff)
  qed
qed

lemma roundEven_of_int: "roundEven (of_int n) = n"
  by (simp add: roundEven_def)

lemma double_of_int:
  assumes "\<bar>n\<bar> < 2 ^ 53"
  shows "double (of_int n) = of_int n"
proof (cases "n = 0")
  case True
  then show ?thesis by (simp add: double_def)
next
  case False
  let ?x = "of_int n :: rat"
  let ?e = "exponent ?x"
  from False have nz: "?x \<noteq> 0" by simp
  have "2 powi ?e \<le> \<bar>?x\<bar>" using exponent_le [OF nz] .
  also have "\<bar>?x\<bar> < 2 ^ 53"
  proof -
    have "\<bar>?x\<bar> = of_int \<bar>n\<bar>" by simp
    also have "\<dots> < of_int (2 ^ 53)" using assms by (simp only: of_int_less_iff)
    finally show ?thesis by simp
  qed
  finally have "(2::rat) powi ?e < 2 powi 53" by simp
  then have "?e < 53"
    using power_int_le_imp_less_exp [of "2::rat" ?e 53] by simp
  then have "?e - 52 = - int (nat (52 - ?e))" by simp
  then obtain k where k: "?e - 52 = - int k" ..
  have q: "(2::rat) powi (?e - 52) = 1 / 2 ^ k"
    by (simp add: k power_int_minus_divide)
  have "?x / (1 / 2 ^ k) = of_int (n * 2 ^ k)" by simp
  then have "roundEven (?x / (1 / 2 ^ k)) = n * 2 ^ k"
    by (simp only: roundEven_of_int)
  then show ?thesis
    using nz by (simp add: double_def Let_def q)
qed

lemma double_error:
  assumes "x \<noteq> 0"
  shows "\<bar>double x - x\<bar> \<le> 2 powi (exponent x - 52) / 2"
proof -
  let ?q = "(2::rat) powi (exponent x - 52)"
  have qpos: "0 < ?q" by (simp add: zero_less_power_int)
  have "double x - x = (of_int (roundEven (x / ?q)) - x / ?q) * ?q"
    using assms qpos by (simp add: double_def Let_def algebra_simps)
  then have "\<bar>double x - x\<bar> = \<bar>of_int (roundEven (x / ?q)) - x / ?q\<bar> * ?q"
    using qpos by (simp add: abs_mult)
  also have "\<dots> \<le> (1 / 2) * ?q"
    using roundEven_error [of "x / ?q"] qpos by (simp add: mult_right_mono)
  finally show ?thesis by simp
qed

lemma ceiling_double_div:
  assumes "0 < d" "d < 2 ^ 53"
  shows "\<lceil>double (of_int d / 1000)\<rceil> = \<lceil>(of_int d :: rat) / 1000\<rceil>"
proof (cases "d mod 1000 = 0")
  case True
  then obtain m where m: "d = 1000 * m" by (metis mod_eq_0_iff_dvd dvd_def)
  with assms have "\<bar>m\<bar> < 2 ^ 53" by simp
  from double_of_int [OF this] m show ?thesis by simp
next
  case False
  let ?x = "(of_int d :: rat) / 1000"
  let ?m = "d div 1000"
  let ?r = "d mod 1000"
  have r: "1 \<le> ?r" "?r \<le> 999" using False
    by (simp_all add: order_less_le)
  have "d = 1000 * ?m + ?r" by simp
  then have "(of_int d :: rat) = of_int (1000 * ?m + ?r)" by (rule arg_cong)
  then have dd: "(of_int d :: rat) = 1000 * of_int ?m + of_int ?r"
    by (simp only: of_int_add of_int_mult of_int_numeral)
  have x: "?x = of_int ?m + of_int ?r / 1000"
    by (subst dd) (simp add: add_divide_distrib)
  have lo: "of_int ?m + 1 / 1000 \<le> ?x" using r x by simp
  have hi: "?x \<le> of_int ?m + 999 / 1000" using r x by simp
  have nz: "?x \<noteq> 0" using assms by simp
  have "2 powi exponent ?x \<le> \<bar>?x\<bar>" by (rule exponent_le [OF nz])
  also have "\<bar>?x\<bar> < 2 ^ 44"
  proof -
    have "(of_int d :: rat) < of_int (2 ^ 53)" using assms by (simp only: of_int_less_iff)
    then show ?thesis using assms by simp
  qed
  finally have "(2::rat) powi exponent ?x < 2 powi 44" by simp
  then have "exponent ?x < 44"
    using power_int_le_imp_less_exp [of "2::rat" "exponent ?x" 44] by simp
  then have "(2::rat) powi (exponent ?x - 52) \<le> 2 powi (- 9)"
    by (intro power_int_increasing) auto
  with double_error [OF nz] have err: "\<bar>double ?x - ?x\<bar> \<le> 1 / 1024"
    by (simp add: power_int_minus_divide)
  from err have e1: "?x - 1 / 1024 \<le> double ?x" and e2: "double ?x \<le> ?x + 1 / 1024"
    by linarith+
  from e1 lo have "of_int ?m < double ?x" by linarith
  moreover from e2 hi have "double ?x \<le> of_int ?m + 1" by linarith
  ultimately have a: "\<lceil>double ?x\<rceil> = ?m + 1" by (intro ceiling_unique) simp_all
  from lo hi have b: "\<lceil>?x\<rceil> = ?m + 1" by (intro ceiling_unique) linarith+
  from a b show ?thesis by simp
qed

section \<open>Basic facts about the hints and about one check\<close>

lemma showNat_nonempty: "showNat n \<noteq> []"
  by (subst showNat.simps) simp

text \<open>The rendering of numbers below and from \<open>10 ^ 21\<close>.\<close>

lemma showNumber_examples:
  "showNumber 50 = ''50''
   \<and> showNumber 1000000000000000000000 = ''1e+21''
   \<and> showNumber 1500000000000000000000 = ''1.5e+21''"
  by code_simp

lemma hintCooldown_nonempty: "hintCooldown r \<noteq> []"
  by (simp add: hintCooldown_def hintCooldownPrefix_def)

lemma hintQuota_nonempty: "hintQuota \<noteq> []"
  by (simp add: hintQuota_def)

lemma hintCooldown_neq_hintQuota: "hintCooldown r \<noteq> hintQuota"
  by (simp add: hintCooldown_def hintCooldownPrefix_def hintQuota_def)

text \<open>A window that has just been reset is never exhausted, since the quota is positive.\<close>

lemma resetWindow_not_exhausted:
  "0 < maxDay \<Longrightarrow> usesExhausted (dailyUsesLeft (resetWindow clk maxDay record)) \<Longrightarrow>
   resetWindow clk maxDay record = record"
  by (auto simp: resetWindow_def usesExhausted_def)

text \<open>A check that returns a hint leaves the records as they were.\<close>

lemma checkRateLimit_denied_records:
  "checkRateLimit clk session commandName sc minInt maxDay records = (Some h, records') \<Longrightarrow>
   records' = records"
  by (auto simp: checkRateLimit_def Let_def resetWindow_not_exhausted
      split: option.splits if_splits)

lemma checkRateLimit_result:
  "checkRateLimit clk session commandName sc minInt maxDay records = (Some h, records') \<Longrightarrow>
   h = hintQuota \<or> (\<exists>r. h = hintCooldown r)"
  by (auto simp: checkRateLimit_def Let_def split: option.splits if_splits)

lemma checkRateLimit_truthy:
  "checkRateLimit clk session commandName sc minInt maxDay records = (Some h, records') \<Longrightarrow>
   h \<noteq> []"
  by (metis checkRateLimit_result hintCooldown_nonempty hintQuota_nonempty)

text \<open>A check touches no record but the one of its own composite key.\<close>

lemma checkRateLimit_frame:
  "getRecordKey session sc = Some key \<Longrightarrow>
   rid \<noteq> scopeString sc @ '':'' @ key @ '':'' @ commandName \<Longrightarrow>
   snd (checkRateLimit clk session commandName sc minInt maxDay records) rid = records rid"
  by (auto simp: checkRateLimit_def Let_def split: option.splits if_splits)

section \<open>The walk over the command chain\<close>

lemma walk_active:
  assumes "resolve session (minInterval (config cmd)) \<noteq> 0
           \<or> resolve session (maxDayUsage (config cmd)) \<noteq> 0"
    and "checkLevel clk session cmd records = (result, records')"
  shows "walk hint clk session (Some cmd) records =
           (case result of
              Some h \<Rightarrow> (Some (if hint then h else []), records)
            | None \<Rightarrow> walk hint clk session (parent cmd) records')"
proof (cases cmd)
  case (Command n cfg p)
  show ?thesis
  proof (cases result)
    case None
    with assms Command show ?thesis by (auto simp: checkLevel_def)
  next
    case (Some h)
    with assms Command have "h \<noteq> []" "records' = records"
      by (auto simp: checkLevel_def dest: checkRateLimit_truthy checkRateLimit_denied_records)
    with assms Command Some show ?thesis by (auto simp: checkLevel_def)
  qed
qed

lemma walk_inactive:
  assumes "resolve session (minInterval (config cmd)) = 0"
    and "resolve session (maxDayUsage (config cmd)) = 0"
  shows "walk hint clk session (Some cmd) records = walk hint clk session (parent cmd) records"
  using assms by (cases cmd) simp

lemma walk_nearestActive:
  "walk hint clk session cmd records = walk hint clk session (nearestActive session cmd) records"
proof (induction session cmd rule: nearestActive.induct)
  case (1 session)
  show ?case by simp
next
  case (2 session n cfg p)
  show ?case
  proof (cases "resolve session (minInterval cfg) = 0 \<and> resolve session (maxDayUsage cfg) = 0")
    case True
    with 2 show ?thesis by simp
  next
    case False
    then have "nearestActive session (Some (Command n cfg p)) = Some (Command n cfg p)"
      by auto
    then show ?thesis by simp
  qed
qed

lemma nearestActive_active:
  "nearestActive session cmd = Some level \<Longrightarrow>
   resolve session (minInterval (config level)) \<noteq> 0
   \<or> resolve session (maxDayUsage (config level)) \<noteq> 0"
  by (induction session cmd rule: nearestActive.induct) (auto split: if_splits)

lemmas example_defs =
  exampleSession_def exampleNoChannel_def exampleNoUser_def exampleClock_def exampleInstant_def
  exampleConfig_def
  exampleHintConfig_def exampleIgnoreConfig_def exampleBlockConfig_def exampleUndefinedRule_def
  exampleParent_def exampleChild_def exampleChannelChild_def exampleUnlimited_def exampleUsed_def

lemmas eval_defs =
  beforeExecute_def getEffectiveAction_def buildRules_def checkLevel_def checkRateLimit_def
  getRecordKey_def recordName_def scopeString_def ruleKey_def ruleTypeString_def ruleAction_def
  Let_def emptyRecord_def resetWindow_def truthy_def isAfter_def isBefore_def usesExhausted_def
  decrement_def remainingSeconds_def template_def

subsection \<open>First-match stop\<close>

text \<open>
  C1, as stated, fails. One invocation of \<^verbatim>\<open>remind.add\<close> (quota 5) whose parent
  \<^verbatim>\<open>remind\<close> has a quota of 3, on empty records: the child admits the call, the loop goes
  on to the parent, and the parent's record is created and charged as well.
\<close>

theorem first_match_stop_counterexample:
  "fst (beforeExecute exampleConfig exampleClock exampleSession exampleChild Map.empty) = None
   \<and> snd (beforeExecute exampleConfig exampleClock exampleSession exampleChild Map.empty)
        ''user:U1:remind:add''
      = Some \<lparr>cooldownExpiresAt = None, dailyUsesLeft = Some (Finite 4),
              dailyResetAt = Some 86400000\<rparr>
   \<and> snd (beforeExecute exampleConfig exampleClock exampleSession exampleChild Map.empty)
        ''user:U1:remind''
      = Some \<lparr>cooldownExpiresAt = None, dailyUsesLeft = Some (Finite 2),
              dailyResetAt = Some 86400000\<rparr>"
  by (simp add: example_defs eval_defs)

text \<open>
  C1, amended: for an invocation that no block or ignore rule resolves, the commands whose
  two thresholds are both 0 are passed over and the nearest command with an active limit is
  checked first. If that check denies, the hook returns the denial at once, with the records
  unchanged, and no ancestor is consulted. If it admits the call, the walk does not stop:
  it goes on from the parent of that command with the updated records, so that the
  ancestors with an active limit are checked, and charged, as well.
\<close>

theorem nearest_active_level:
  assumes "getEffectiveAction (buildRules cfg) session = Limit"
    and "nearestActive session (Some command) = Some level"
    and "checkLevel clk session level records = (result, records')"
  shows "beforeExecute cfg clk session command records =
           (case result of
              Some h \<Rightarrow> (Some (if sendHint cfg = Some True then h else []), records)
            | None \<Rightarrow> walk (sendHint cfg = Some True) clk session (parent level) records')"
proof -
  have "beforeExecute cfg clk session command records
        = walk (sendHint cfg = Some True) clk session (Some command) records"
    using assms(1) by (simp add: beforeExecute_def)
  also have "\<dots> = walk (sendHint cfg = Some True) clk session (Some level) records"
    using walk_nearestActive [of _ _ _ "Some command"] assms(2) by simp
  also have "\<dots> = (case result of
              Some h \<Rightarrow> (Some (if sendHint cfg = Some True then h else []), records)
            | None \<Rightarrow> walk (sendHint cfg = Some True) clk session (parent level) records')"
    using walk_active [OF nearestActive_active [OF assms(2)] assms(3)] .
  finally show ?thesis .
qed

theorem nearest_active_level_witness:
  "beforeExecute exampleConfig exampleClock exampleSession exampleChild Map.empty
   = walk False exampleClock exampleSession (Some exampleParent)
       (Map.empty(''user:U1:remind:add'' \<mapsto>
          \<lparr>cooldownExpiresAt = None, dailyUsesLeft = Some (Finite 4),
           dailyResetAt = Some 86400000\<rparr>))"
proof -
  have a: "getEffectiveAction (buildRules exampleConfig) exampleSession = Limit"
    by (simp add: example_defs eval_defs)
  have b: "nearestActive exampleSession (Some exampleChild) = Some exampleChild"
    by (simp add: example_defs)
  have c: "checkLevel exampleClock exampleSession exampleChild Map.empty
           = (None, Map.empty(''user:U1:remind:add'' \<mapsto>
                \<lparr>cooldownExpiresAt = None, dailyUsesLeft = Some (Finite 4),
                 dailyResetAt = Some 86400000\<rparr>))"
    by (simp add: example_defs eval_defs)
  show ?thesis
    using nearest_active_level [OF a b c] by (simp add: example_defs)
qed

section \<open>A level whose scope key is absent\<close>

text \<open>
  C9: when the session lacks the identifier the resolved scope selects (or the identifier
  is the empty string), the check at that level returns nothing, leaves every usage record
  as it was, and the walk goes on with the parent.
\<close>

theorem absent_key_skips_level:
  assumes "getRecordKey session (resolve session (scope (config cmd))) = None
           \<or> getRecordKey session (resolve session (scope (config cmd))) = Some []"
  shows "checkLevel clk session cmd records = (None, records)
         \<and> walk hint clk session (Some cmd) records = walk hint clk session (parent cmd) records"
proof -
  have chk: "checkLevel clk session cmd records = (None, records)"
    using assms by (auto simp: checkLevel_def checkRateLimit_def)
  show ?thesis
  proof (cases "resolve session (minInterval (config cmd)) = 0
                \<and> resolve session (maxDayUsage (config cmd)) = 0")
    case True
    then show ?thesis using chk walk_inactive by simp
  next
    case False
    then have "resolve session (minInterval (config cmd)) \<noteq> 0
               \<or> resolve session (maxDayUsage (config cmd)) \<noteq> 0" by auto
    from walk_active [OF this chk] chk show ?thesis by simp
  qed
qed

theorem absent_key_skips_level_witness:
  "checkLevel exampleClock exampleNoChannel exampleChannelChild exampleUsed = (None, exampleUsed)
   \<and> walk True exampleClock exampleNoChannel (Some exampleChannelChild) exampleUsed
     = walk True exampleClock exampleNoChannel (Some exampleParent) exampleUsed"
proof -
  have a: "getRecordKey exampleNoChannel
             (resolve exampleNoChannel (scope (config exampleChannelChild))) = None
           \<or> getRecordKey exampleNoChannel
             (resolve exampleNoChannel (scope (config exampleChannelChild))) = Some []"
    by (simp add: exampleNoChannel_def exampleChannelChild_def getRecordKey_def)
  show ?thesis
    using absent_key_skips_level [OF a] by (simp add: exampleChannelChild_def)
qed

section \<open>Rules: ignore and block\<close>

lemma runHook_ignored:
  "list_all (ignored cfg) invocations \<Longrightarrow>
   runHook cfg invocations records = (replicate (length invocations) None, records)"
  by (induction invocations arbitrary: records) (auto simp: ignored_def beforeExecute_def)

text \<open>
  C6: for a session whose effective action is ignore, the hook lets the invocation run and
  leaves the usage records untouched, whatever the command and its ancestors configure; so
  does any sequence of invocations by such sessions.
\<close>

theorem ignore_allows_everything:
  "(getEffectiveAction (buildRules cfg) session = Ignore \<longrightarrow>
      beforeExecute cfg clk session command records = (None, records))
   \<and> (list_all (ignored cfg) invocations \<longrightarrow>
      runHook cfg invocations records = (replicate (length invocations) None, records))"
  by (simp add: beforeExecute_def runHook_ignored)

theorem ignore_allows_everything_witness:
  "beforeExecute exampleIgnoreConfig exampleClock exampleSession exampleChild exampleUsed
     = (None, exampleUsed)
   \<and> runHook exampleIgnoreConfig
       [(exampleClock, exampleSession, exampleChild), (exampleClock, exampleSession, exampleParent)]
       exampleUsed
     = ([None, None], exampleUsed)"
proof -
  have a: "getEffectiveAction (buildRules exampleIgnoreConfig) exampleSession = Ignore"
    by (simp add: example_defs eval_defs)
  then have b: "list_all (ignored exampleIgnoreConfig)
     [(exampleClock, exampleSession, exampleChild), (exampleClock, exampleSession, exampleParent)]"
    by (simp add: ignored_def)
  from ignore_allows_everything [of exampleIgnoreConfig exampleSession exampleClock exampleChild
      exampleUsed
      "[(exampleClock, exampleSession, exampleChild), (exampleClock, exampleSession, exampleParent)]"]
    a b
  show ?thesis by (simp del: runHook.simps)
qed

lemma walk_hint:
  "walk hint clk session cmd records =
     (case walk True clk session cmd records of
        (None, records') \<Rightarrow> (None, records')
      | (Some h, records') \<Rightarrow> (Some (if hint then h else []), records'))"
proof (induction hint clk session cmd records rule: walk.induct)
  case (1 hint clk session commandRecords)
  show ?case by simp
next
  case (2 hint clk session n cfg p commandRecords)
  then show ?case
    by (auto simp: Let_def split: prod.splits option.splits)
qed

lemma walk_denial_source:
  "walk hint clk session cmd records = (Some r, records') \<Longrightarrow>
   \<exists>level \<in> set (chain cmd). \<exists>records0 h.
      checkLevel clk session level records0 = (Some h, records') \<and> r = (if hint then h else [])"
proof (induction hint clk session cmd records rule: walk.induct)
  case (1 hint clk session commandRecords)
  then show ?case by simp
next
  case (2 hint clk session n cfg p commandRecords)
  show ?case
  proof (cases "resolve session (minInterval cfg) = 0 \<and> resolve session (maxDayUsage cfg) = 0")
    case True
    with 2 show ?thesis by (auto simp: Let_def)
  next
    case False
    obtain res recs where chk:
      "checkLevel clk session (Command n cfg p) commandRecords = (res, recs)"
      by (cases "checkLevel clk session (Command n cfg p) commandRecords") auto
    show ?thesis
    proof (cases res)
      case None
      with 2 False chk show ?thesis by (auto simp: Let_def checkLevel_def)
    next
      case (Some h)
      with chk have "h \<noteq> []" by (auto simp: checkLevel_def dest: checkRateLimit_truthy)
      with "2.prems" False chk Some have "r = (if hint then h else [])" "records' = recs"
        by (auto simp: Let_def checkLevel_def)
      with chk Some show ?thesis by auto
    qed
  qed
qed

text \<open>
  C7: for a session whose effective action is block, the hook returns the empty string,
  whatever \<^verbatim>\<open>sendHint\<close> is. Otherwise, when the walk denies, the hook returns the hint
  if \<^verbatim>\<open>sendHint\<close> is set and the empty string if not; the hint is the one
  \<^verbatim>\<open>checkRateLimit\<close> produced at a command of the chain, the denying one.
\<close>

theorem denial_text:
  "(getEffectiveAction (buildRules cfg) session = Block \<longrightarrow>
      beforeExecute cfg clk session command records = (Some [], records))
   \<and> (getEffectiveAction (buildRules cfg) session = Limit \<longrightarrow>
      beforeExecute cfg clk session command records =
        (case walk True clk session (Some command) records of
           (None, records') \<Rightarrow> (None, records')
         | (Some h, records') \<Rightarrow> (Some (if sendHint cfg = Some True then h else []), records')))
   \<and> (\<forall>h records'. walk True clk session (Some command) records = (Some h, records') \<longrightarrow>
        (\<exists>level \<in> set (chain (Some command)). \<exists>records0.
            checkLevel clk session level records0 = (Some h, records')))"
proof -
  have "getEffectiveAction (buildRules cfg) session = Block \<Longrightarrow>
      beforeExecute cfg clk session command records = (Some [], records)"
    by (simp add: beforeExecute_def)
  moreover have "getEffectiveAction (buildRules cfg) session = Limit \<Longrightarrow>
      beforeExecute cfg clk session command records =
        (case walk True clk session (Some command) records of
           (None, records') \<Rightarrow> (None, records')
         | (Some h, records') \<Rightarrow> (Some (if sendHint cfg = Some True then h else []), records'))"
    using walk_hint [of "sendHint cfg = Some True" clk session "Some command" records]
    by (simp add: beforeExecute_def)
  moreover have "walk True clk session (Some command) records = (Some h, records') \<Longrightarrow>
        (\<exists>level \<in> set (chain (Some command)). \<exists>records0.
            checkLevel clk session level records0 = (Some h, records'))" for h records'
    using walk_denial_source [of True clk session "Some command" records h records'] by auto
  ultimately show ?thesis by blast
qed

theorem denial_text_witness:
  "beforeExecute exampleBlockConfig exampleClock exampleSession exampleParent exampleUsed
     = (Some [], exampleUsed)
   \<and> beforeExecute exampleHintConfig exampleClock exampleSession exampleParent exampleUsed
     = (Some hintQuota, exampleUsed)
   \<and> beforeExecute exampleConfig exampleClock exampleSession exampleParent exampleUsed
     = (Some [], exampleUsed)"
proof -
  have block: "getEffectiveAction (buildRules exampleBlockConfig) exampleSession = Block"
    by (simp add: example_defs eval_defs)
  have limit1: "getEffectiveAction (buildRules exampleHintConfig) exampleSession = Limit"
    by (simp add: example_defs eval_defs)
  have limit2: "getEffectiveAction (buildRules exampleConfig) exampleSession = Limit"
    by (simp add: example_defs eval_defs)
  have w: "walk True exampleClock exampleSession (Some exampleParent) exampleUsed
           = (Some hintQuota, exampleUsed)"
    by (simp add: example_defs eval_defs hintQuota_nonempty)
  from denial_text [of exampleBlockConfig exampleSession exampleClock exampleParent exampleUsed]
    block
  have 1: "beforeExecute exampleBlockConfig exampleClock exampleSession exampleParent exampleUsed
           = (Some [], exampleUsed)" by blast
  from denial_text [of exampleHintConfig exampleSession exampleClock exampleParent exampleUsed]
    limit1
  have 2: "beforeExecute exampleHintConfig exampleClock exampleSession exampleParent exampleUsed
           = (Some hintQuota, exampleUsed)"
    by (simp add: w exampleHintConfig_def)
  from denial_text [of exampleConfig exampleSession exampleClock exampleParent exampleUsed]
    limit2
  have 3: "beforeExecute exampleConfig exampleClock exampleSession exampleParent exampleUsed
           = (Some [], exampleUsed)"
    by (simp add: w exampleConfig_def)
  from 1 2 3 show ?thesis by blast
qed

section \<open>Thresholds that disable a limit\<close>

lemma checkRateLimit_clamp:
  "checkRateLimit clk session commandName sc minInt maxDay records
     = checkRateLimit clk session commandName sc (max 0 minInt) (max 0 maxDay) records"
proof -
  have a: "(0 < max 0 minInt) = (0 < minInt)" "(0 < max 0 maxDay) = (0 < maxDay)" by auto
  have b: "0 < minInt \<Longrightarrow> max 0 minInt = minInt" "0 < maxDay \<Longrightarrow> max 0 maxDay = maxDay"
    by auto
  show ?thesis
    unfolding checkRateLimit_def a
    by (auto simp: Let_def b split: option.splits)
qed

lemma no_cooldown_hint:
  "minInt \<le> 0 \<Longrightarrow>
   fst (checkRateLimit clk session commandName sc minInt maxDay records) \<noteq> Some (hintCooldown r)"
  by (auto simp: checkRateLimit_def Let_def hintCooldown_neq_hintQuota [symmetric]
      split: option.splits)

lemma no_quota_hint:
  "maxDay \<le> 0 \<Longrightarrow>
   fst (checkRateLimit clk session commandName sc minInt maxDay records) \<noteq> Some hintQuota"
  by (auto simp: checkRateLimit_def Let_def hintCooldown_neq_hintQuota split: option.splits)

lemma no_hint:
  "minInt \<le> 0 \<Longrightarrow> maxDay \<le> 0 \<Longrightarrow>
   fst (checkRateLimit clk session commandName sc minInt maxDay records) = None"
  by (auto simp: checkRateLimit_def Let_def split: option.splits)

text \<open>
  C4: whatever the records hold, a check whose \<^verbatim>\<open>minInterval\<close> is 0 never returns the
  cooldown hint, a check whose \<^verbatim>\<open>maxDayUsage\<close> is 0 never returns the quota hint, a
  check with both at 0 returns nothing, and the hook passes over a command whose two
  thresholds both resolve to 0.
\<close>

theorem zero_threshold_disables:
  "(\<forall>r. fst (checkRateLimit clk session commandName sc 0 maxDay records)
          \<noteq> Some (hintCooldown r))
   \<and> fst (checkRateLimit clk session commandName sc minInt 0 records) \<noteq> Some hintQuota
   \<and> fst (checkRateLimit clk session commandName sc 0 0 records) = None
   \<and> (resolve session (minInterval (config cmd)) = 0
        \<and> resolve session (maxDayUsage (config cmd)) = 0 \<longrightarrow>
      walk hint clk session (Some cmd) records = walk hint clk session (parent cmd) records)"
proof (intro conjI impI allI)
  fix r
  show "fst (checkRateLimit clk session commandName sc 0 maxDay records) \<noteq> Some (hintCooldown r)"
    by (simp add: no_cooldown_hint)
next
  show "fst (checkRateLimit clk session commandName sc minInt 0 records) \<noteq> Some hintQuota"
    by (simp add: no_quota_hint)
next
  show "fst (checkRateLimit clk session commandName sc 0 0 records) = None"
    by (simp add: no_hint)
next
  assume "resolve session (minInterval (config cmd)) = 0
          \<and> resolve session (maxDayUsage (config cmd)) = 0"
  then show "walk hint clk session (Some cmd) records = walk hint clk session (parent cmd) records"
    by (simp add: walk_inactive)
qed

theorem zero_threshold_disables_witness:
  "fst (checkRateLimit exampleClock exampleSession ''remind'' User 0 3 exampleUsed)
     \<noteq> Some (hintCooldown 59)
   \<and> fst (checkRateLimit exampleClock exampleSession ''remind'' User 60 0 exampleUsed)
     \<noteq> Some hintQuota
   \<and> fst (checkRateLimit exampleClock exampleSession ''remind'' User 0 0 exampleUsed) = None
   \<and> walk True exampleClock exampleSession (Some exampleUnlimited) exampleUsed
     = walk True exampleClock exampleSession (Some exampleParent) exampleUsed"
proof -
  have a: "resolve exampleSession (minInterval (config exampleUnlimited)) = 0
           \<and> resolve exampleSession (maxDayUsage (config exampleUnlimited)) = 0"
    by (simp add: exampleUnlimited_def)
  have b: "parent exampleUnlimited = Some exampleParent"
    by (simp add: exampleUnlimited_def)
  from zero_threshold_disables [of exampleClock exampleSession "''remind''" User 3 exampleUsed
      60 exampleUnlimited True] a b
  show ?thesis by simp
qed

text \<open>
  C8, as stated, fails: a negative threshold disables its own dimension only. With
  \<^verbatim>\<open>minInterval\<close> resolving to -5 and \<^verbatim>\<open>maxDayUsage\<close> to 2, the third call of
  the day is denied with the quota hint.
\<close>

theorem negative_interval_quota_counterexample:
  "fst (callSequence exampleSession ''remind'' User (- 5) 2
          [exampleClock, exampleClock, exampleClock] Map.empty)
   = [None, None, Some hintQuota]"
  by (simp add: example_defs eval_defs)

text \<open>
  C8, amended: a negative threshold behaves as the threshold 0, each in its own dimension.
  The check is the one made with both thresholds clamped to 0 from below, so a negative
  \<^verbatim>\<open>minInterval\<close> never yields the cooldown hint, a negative \<^verbatim>\<open>maxDayUsage\<close>
  never yields the quota hint, and with neither threshold positive the check returns
  nothing; a positive threshold of the other dimension still applies. No input makes the
  check fail: every path returns.
\<close>

theorem negative_threshold_disables:
  "checkRateLimit clk session commandName sc minInt maxDay records
     = checkRateLimit clk session commandName sc (max 0 minInt) (max 0 maxDay) records
   \<and> (minInt < 0 \<longrightarrow>
        (\<forall>r. fst (checkRateLimit clk session commandName sc minInt maxDay records)
              \<noteq> Some (hintCooldown r)))
   \<and> (maxDay < 0 \<longrightarrow>
        fst (checkRateLimit clk session commandName sc minInt maxDay records) \<noteq> Some hintQuota)
   \<and> (minInt \<le> 0 \<and> maxDay \<le> 0 \<longrightarrow>
        fst (checkRateLimit clk session commandName sc minInt maxDay records) = None)"
proof (intro conjI impI allI)
  show "checkRateLimit clk session commandName sc minInt maxDay records
     = checkRateLimit clk session commandName sc (max 0 minInt) (max 0 maxDay) records"
    by (rule checkRateLimit_clamp)
next
  fix r assume "minInt < 0"
  then show "fst (checkRateLimit clk session commandName sc minInt maxDay records)
              \<noteq> Some (hintCooldown r)"
    by (simp add: no_cooldown_hint)
next
  assume "maxDay < 0"
  then show "fst (checkRateLimit clk session commandName sc minInt maxDay records)
              \<noteq> Some hintQuota"
    by (simp add: no_quota_hint)
next
  assume "minInt \<le> 0 \<and> maxDay \<le> 0"
  then show "fst (checkRateLimit clk session commandName sc minInt maxDay records) = None"
    by (simp add: no_hint)
qed

theorem negative_threshold_disables_witness:
  "checkRateLimit exampleClock exampleSession ''remind'' User (- 5) (- 1) exampleUsed
     = checkRateLimit exampleClock exampleSession ''remind'' User 0 0 exampleUsed
   \<and> fst (checkRateLimit exampleClock exampleSession ''remind'' User (- 5) (- 1) exampleUsed)
     \<noteq> Some (hintCooldown 59)
   \<and> fst (checkRateLimit exampleClock exampleSession ''remind'' User (- 5) (- 1) exampleUsed)
     \<noteq> Some hintQuota
   \<and> fst (checkRateLimit exampleClock exampleSession ''remind'' User (- 5) (- 1) exampleUsed)
     = None"
proof -
  have a: "(- 5 :: number) < 0" "(- 1 :: number) < 0" "(- 5 :: number) \<le> 0 \<and> (- 1 :: number) \<le> 0"
    "max 0 (- 5 :: number) = 0" "max 0 (- 1 :: number) = 0"
    by simp_all
  note T = negative_threshold_disables [of exampleClock exampleSession "''remind''" User "- 5" "- 1"
      exampleUsed]
  from T have "checkRateLimit exampleClock exampleSession ''remind'' User (- 5) (- 1) exampleUsed
     = checkRateLimit exampleClock exampleSession ''remind'' User (max 0 (- 5)) (max 0 (- 1))
         exampleUsed"
    by (rule conjunct1)
  then have 1: "checkRateLimit exampleClock exampleSession ''remind'' User (- 5) (- 1) exampleUsed
     = checkRateLimit exampleClock exampleSession ''remind'' User 0 0 exampleUsed"
    by (simp only: a)
  from T a(1) have 2:
    "fst (checkRateLimit exampleClock exampleSession ''remind'' User (- 5) (- 1) exampleUsed)
     \<noteq> Some (hintCooldown 59)"
    by blast
  from T a(2) have 3:
    "fst (checkRateLimit exampleClock exampleSession ''remind'' User (- 5) (- 1) exampleUsed)
     \<noteq> Some hintQuota"
    by blast
  from T a(3) have 4:
    "fst (checkRateLimit exampleClock exampleSession ''remind'' User (- 5) (- 1) exampleUsed)
     = None"
    by blast
  from 1 2 3 4 show ?thesis by blast
qed

section \<open>Cooldown\<close>

lemma naturalNumber_floor: "naturalNumber x \<Longrightarrow> x = of_int \<lfloor>x\<rfloor>"
  unfolding naturalNumber_def by (rule sym) (rule conjunct2)

lemma naturalNumber_nonneg: "naturalNumber x \<Longrightarrow> 0 \<le> x"
  unfolding naturalNumber_def by (rule conjunct1)

lemma showNat_digit:
  assumes "0 \<le> n" "n < 10"
  shows "readNat [digitChar (nat n)] = n"
proof -
  have "(48 + nat n) mod 256 = 48 + nat n" using assms by simp
  then have "of_char (digitChar (nat n)) = 48 + nat n"
    by (simp add: digitChar_def)
  then show ?thesis using assms by (simp add: readNat_def)
qed

lemma readNat_snoc: "readNat (ds @ [c]) = 10 * readNat ds + (int (of_char c) - 48)"
  by (simp add: readNat_def)

text \<open>The digits printed for a non-negative integer denote it.\<close>

lemma readNat_showNat: "0 \<le> n \<Longrightarrow> readNat (showNat n) = n"
proof (induction n rule: showNat.induct)
  case (1 n)
  show ?case
  proof (cases "n < 10")
    case True
    with "1.prems" show ?thesis by (subst showNat.simps) (simp add: showNat_digit)
  next
    case False
    with "1.prems" have q: "0 \<le> n div 10" by simp
    have r: "0 \<le> n mod 10" "n mod 10 < 10" by simp_all
    from showNat_digit [OF r] have "int (of_char (digitChar (nat (n mod 10)))) - 48 = n mod 10"
      by (simp add: readNat_def)
    with "1.IH" [OF False q] False show ?thesis
      by (subst showNat.simps) (simp add: readNat_snoc)
  qed
qed

lemma double_natural:
  assumes "naturalNumber x" "x < 2 ^ 53"
  shows "double x = x"
proof -
  from assms(1) have x: "x = of_int \<lfloor>x\<rfloor>" and nonneg: "0 \<le> x"
    by (rule naturalNumber_floor, rule naturalNumber_nonneg)
  from nonneg have "0 \<le> \<lfloor>x\<rfloor>" by simp
  moreover have "\<lfloor>x\<rfloor> < 2 ^ 53"
  proof -
    have "(of_int \<lfloor>x\<rfloor> :: rat) < of_int (2 ^ 53)" using x assms(2) by simp
    then show ?thesis by (simp only: of_int_less_iff)
  qed
  ultimately have "\<bar>\<lfloor>x\<rfloor>\<bar> < 2 ^ 53" by simp
  from double_of_int [OF this] x show ?thesis by simp
qed

text \<open>
  The remaining seconds, as the code computes them in doubles, are the exact quotient
  rounded up when the expiry and the time are whole milliseconds below \<open>2 ^ 53\<close>.
\<close>

lemma remainingSeconds_exact:
  assumes "naturalNumber expiry" "naturalNumber t" "t < expiry" "expiry < 2 ^ 53"
  shows "remainingSeconds (Some expiry) t = \<lceil>(expiry - t) / 1000\<rceil>"
    and "0 < \<lceil>(expiry - t) / 1000\<rceil>" and "\<lceil>(expiry - t) / 1000\<rceil> < 10 ^ 21"
proof -
  from assms(1) have e: "expiry = of_int \<lfloor>expiry\<rfloor>" by (rule naturalNumber_floor)
  from assms(2) have t: "t = of_int \<lfloor>t\<rfloor>" by (rule naturalNumber_floor)
  from assms(2) have t0: "0 \<le> t" by (rule naturalNumber_nonneg)
  let ?d = "\<lfloor>expiry\<rfloor> - \<lfloor>t\<rfloor>"
  have d: "expiry - t = of_int ?d" using e t by simp
  have dpos: "0 < ?d"
  proof -
    have "(0::rat) < of_int ?d" using assms(3) d by simp
    then show ?thesis by (simp only: of_int_0_less_iff)
  qed
  have dlt: "?d < 2 ^ 53"
  proof -
    have "(of_int ?d :: rat) < of_int (2 ^ 53)" using d assms(4) t0 by simp
    then show ?thesis by (simp only: of_int_less_iff)
  qed
  from dpos dlt have "\<bar>?d\<bar> < 2 ^ 53" by simp
  from double_of_int [OF this] have "double (expiry - t) = of_int ?d" by (simp only: d)
  then show "remainingSeconds (Some expiry) t = \<lceil>(expiry - t) / 1000\<rceil>"
    using ceiling_double_div [OF dpos dlt] by (simp add: remainingSeconds_def d)
  show "0 < \<lceil>(expiry - t) / 1000\<rceil>" using assms(3) by simp
  have "(expiry - t) / 1000 \<le> of_int (2 ^ 53)" using d dlt assms(4) t0 by simp
  then have "\<lceil>(expiry - t) / 1000\<rceil> \<le> 2 ^ 53" by (simp only: ceiling_le_iff)
  then show "\<lceil>(expiry - t) / 1000\<rceil> < 10 ^ 21" by simp
qed

text \<open>
  C3, as stated, fails for an interval below the resolution of a double at the size of the
  timestamp. With \<^verbatim>\<open>minInterval\<close> resolving to \<open>2 ^ -24\<close> seconds, a call admitted
  at the millisecond 1700000000000 records that very millisecond as the expiry, not the
  time plus the interval, and a second call in the same millisecond, which is before the
  time plus the interval, is admitted.
\<close>

theorem tiny_interval_counterexample:
  "now exampleInstant < now exampleInstant + (1 / 2 ^ 24) * 1000
   \<and> fst (callSequence exampleSession ''remind'' User (1 / 2 ^ 24) 0
            [exampleInstant, exampleInstant] Map.empty)
     = [None, None]
   \<and> snd (callSequence exampleSession ''remind'' User (1 / 2 ^ 24) 0
            [exampleInstant] Map.empty) ''user:U1:remind''
     = Some \<lparr>cooldownExpiresAt = Some 1700000000000, dailyUsesLeft = None,
             dailyResetAt = None\<rparr>"
proof -
  have d: "double (1700000000000 + double (125 / 2097152)) = 1700000000000"
    by code_simp
  show ?thesis
    by (simp add: example_defs eval_defs d)
qed

text \<open>
  C3, amended: with \<^verbatim>\<open>minInterval\<close> resolving to \<open>N > 0\<close>, a whole number of
  milliseconds, a call admitted at time \<open>t\<close>, a whole number of milliseconds since the
  epoch with \<open>t + N * 1000 < 2 ^ 53\<close>, records the expiry \<open>t + N * 1000\<close>
  milliseconds. While the record of that key is as this call left it, a call with a
  positive \<^verbatim>\<open>minInterval\<close> at a whole millisecond before the expiry is denied with
  the cooldown hint, whose text carries the decimal digits of the remaining milliseconds
  divided by 1000 and rounded up, and leaves the records unchanged; a call at or after the
  expiry is never denied with the cooldown hint.
\<close>

theorem cooldown_correctness:
  assumes key: "getRecordKey session sc = Some key" "key \<noteq> []"
    and N: "0 < N" "0 < N'"
    and whole: "naturalNumber (now clk)" "naturalNumber (N * 1000)"
    and bound: "now clk + N * 1000 < 2 ^ 53"
    and admitted: "checkRateLimit clk session commandName sc N maxDay records = (None, records1)"
    and same: "records2 (scopeString sc @ '':'' @ key @ '':'' @ commandName)
               = records1 (scopeString sc @ '':'' @ key @ '':'' @ commandName)"
  shows "(\<exists>stored. records1 (scopeString sc @ '':'' @ key @ '':'' @ commandName) = Some stored
            \<and> cooldownExpiresAt stored = Some (now clk + N * 1000))
         \<and> (naturalNumber (now clk') \<and> now clk' < now clk + N * 1000 \<longrightarrow>
              checkRateLimit clk' session commandName sc N' maxDay' records2
                = (Some (hintCooldownPrefix
                         @ showNat \<lceil>(now clk + N * 1000 - now clk') / 1000\<rceil>
                         @ hintCooldownSuffix), records2)
              \<and> readNat (showNat \<lceil>(now clk + N * 1000 - now clk') / 1000\<rceil>)
                  = \<lceil>(now clk + N * 1000 - now clk') / 1000\<rceil>)
         \<and> (now clk + N * 1000 \<le> now clk' \<longrightarrow>
              (\<forall>r. fst (checkRateLimit clk' session commandName sc N' maxDay' records2)
                   \<noteq> Some (hintCooldown r)))"
proof -
  let ?rid = "scopeString sc @ '':'' @ key @ '':'' @ commandName"
  let ?expiry = "now clk + N * 1000"
  have t0: "0 \<le> now clk" using whole(1) by (rule naturalNumber_nonneg)
  have n1: "naturalNumber ?expiry"
  proof -
    from whole(1) have a: "now clk = of_int \<lfloor>now clk\<rfloor>" by (rule naturalNumber_floor)
    from whole(2) have b: "N * 1000 = of_int \<lfloor>N * 1000\<rfloor>" by (rule naturalNumber_floor)
    have "?expiry = of_int (\<lfloor>now clk\<rfloor> + \<lfloor>N * 1000\<rfloor>)" using a b by simp
    then have "of_int \<lfloor>?expiry\<rfloor> = ?expiry" by (metis floor_of_int)
    with t0 N(1) show ?thesis by (simp add: naturalNumber_def)
  qed
  have "N * 1000 < 2 ^ 53" using bound t0 by simp
  from double_natural [OF whole(2) this] double_natural [OF n1 bound]
  have exact: "double (now clk + double (N * 1000)) = ?expiry" by simp
  from admitted key N(1) obtain stored where
    rec: "records1 ?rid = Some stored" "cooldownExpiresAt stored = Some ?expiry"
    by (auto simp: checkRateLimit_def Let_def exact split: if_splits)
  from rec same have rec2: "records2 ?rid = Some stored" by simp
  have nz: "?expiry \<noteq> 0" using N(1) t0 by auto
  have early: "checkRateLimit clk' session commandName sc N' maxDay' records2
                = (Some (hintCooldownPrefix @ showNat \<lceil>(?expiry - now clk') / 1000\<rceil>
                         @ hintCooldownSuffix), records2)
               \<and> readNat (showNat \<lceil>(?expiry - now clk') / 1000\<rceil>)
                   = \<lceil>(?expiry - now clk') / 1000\<rceil>"
    if "naturalNumber (now clk') \<and> now clk' < ?expiry"
  proof -
    from that have c: "naturalNumber (now clk')" "now clk' < ?expiry" by simp_all
    note r = remainingSeconds_exact [OF n1 c bound]
    from r(2,3) have "showNumber \<lceil>(?expiry - now clk') / 1000\<rceil>
                      = showNat \<lceil>(?expiry - now clk') / 1000\<rceil>"
      by (simp add: showNumber_def showInt_def)
    with r(1) c(2) key N(2) rec rec2 nz
    have "checkRateLimit clk' session commandName sc N' maxDay' records2
                = (Some (hintCooldownPrefix @ showNat \<lceil>(?expiry - now clk') / 1000\<rceil>
                         @ hintCooldownSuffix), records2)"
      by (simp add: checkRateLimit_def Let_def truthy_def isAfter_def hintCooldown_def)
    moreover from r(2) have "readNat (showNat \<lceil>(?expiry - now clk') / 1000\<rceil>)
                   = \<lceil>(?expiry - now clk') / 1000\<rceil>"
      by (simp add: readNat_showNat)
    ultimately show ?thesis by simp
  qed
  have late: "fst (checkRateLimit clk' session commandName sc N' maxDay' records2)
                   \<noteq> Some (hintCooldown r)"
    if "?expiry \<le> now clk'" for r
    using that key rec rec2
    by (auto simp: checkRateLimit_def Let_def isAfter_def hintCooldown_neq_hintQuota [symmetric])
  from rec early late show ?thesis by blast
qed

theorem cooldown_correctness_witness:
  "checkRateLimit \<lparr>now = 10000, tomorrow = 86400000\<rparr> exampleSession ''remind'' User 60 3
     (Map.empty(''user:U1:remind'' \<mapsto>
        \<lparr>cooldownExpiresAt = Some 60000, dailyUsesLeft = Some (Finite 2),
         dailyResetAt = Some 86400000\<rparr>))
   = (Some (hintCooldownPrefix @ ''50'' @ hintCooldownSuffix),
      Map.empty(''user:U1:remind'' \<mapsto>
        \<lparr>cooldownExpiresAt = Some 60000, dailyUsesLeft = Some (Finite 2),
         dailyResetAt = Some 86400000\<rparr>))
   \<and> readNat ''50'' = 50
   \<and> fst (checkRateLimit \<lparr>now = 60000, tomorrow = 86400000\<rparr> exampleSession ''remind'' User 60 3
       (Map.empty(''user:U1:remind'' \<mapsto>
          \<lparr>cooldownExpiresAt = Some 60000, dailyUsesLeft = Some (Finite 2),
           dailyResetAt = Some 86400000\<rparr>)))
     \<noteq> Some (hintCooldown 1)"
proof -
  let ?first = "\<lparr>now = 0, tomorrow = 86400000\<rparr> :: Clock"
  let ?records1 = "Map.empty(''user:U1:remind'' \<mapsto>
        \<lparr>cooldownExpiresAt = Some 60000, dailyUsesLeft = Some (Finite 2),
         dailyResetAt = Some 86400000\<rparr>) :: Records"
  have key: "getRecordKey exampleSession User = Some ''U1''" "''U1'' \<noteq> []"
    by (simp_all add: exampleSession_def getRecordKey_def)
  have N: "(0::number) < 60" by simp
  have whole: "naturalNumber (now ?first)" "naturalNumber (60 * 1000)"
    by (simp_all add: naturalNumber_def)
  have bound: "now ?first + 60 * 1000 < 2 ^ 53" by simp
  have "double 60000 = 60000"
    using double_of_int [of 60000] by simp
  then have admitted: "checkRateLimit ?first exampleSession ''remind'' User 60 3 Map.empty
                  = (None, ?records1)"
    by (simp add: example_defs eval_defs)
  have same: "?records1 (scopeString User @ '':'' @ ''U1'' @ '':'' @ ''remind'')
              = ?records1 (scopeString User @ '':'' @ ''U1'' @ '':'' @ ''remind'')"
    by simp
  have early: "naturalNumber (now \<lparr>now = 10000, tomorrow = 86400000\<rparr>)
               \<and> now \<lparr>now = 10000, tomorrow = 86400000\<rparr> < now ?first + 60 * 1000"
    by (simp add: naturalNumber_def)
  have late: "now ?first + 60 * 1000 \<le> now \<lparr>now = 60000, tomorrow = 86400000\<rparr>" by simp
  have r: "\<lceil>(now ?first + 60 * 1000 - now \<lparr>now = 10000, tomorrow = 86400000\<rparr>) / 1000\<rceil> = (50::int)"
    by simp
  have digits: "showNat 50 = ''50''" by code_simp
  from cooldown_correctness [where ?records1.0 = ?records1 and ?records2.0 = ?records1
      and clk' = "\<lparr>now = 10000, tomorrow = 86400000\<rparr>" and maxDay' = 3,
      OF key N N whole bound admitted same] early
  have 1: "checkRateLimit \<lparr>now = 10000, tomorrow = 86400000\<rparr> exampleSession ''remind'' User 60 3
             ?records1 = (Some (hintCooldownPrefix @ ''50'' @ hintCooldownSuffix), ?records1)
           \<and> readNat ''50'' = 50"
    by (simp only: r digits)
  from cooldown_correctness [where ?records1.0 = ?records1 and ?records2.0 = ?records1
      and clk' = "\<lparr>now = 60000, tomorrow = 86400000\<rparr>" and maxDay' = 3,
      OF key N N whole bound admitted same] late
  have 2: "fst (checkRateLimit \<lparr>now = 60000, tomorrow = 86400000\<rparr> exampleSession ''remind'' User
                 60 3 ?records1) \<noteq> Some (hintCooldown 1)"
    by blast
  from 1 2 show ?thesis by blast
qed

section \<open>Daily quota\<close>







section \<open>The remaining uses stay a non-negative integer\<close>

lemma naturalNumber_pred:
  assumes "naturalNumber x" "\<not> x \<le> 0"
  shows "naturalNumber (x - 1)"
proof -
  from assms(1) have "of_int \<lfloor>x\<rfloor> = x" unfolding naturalNumber_def by (rule conjunct2)
  then have x: "x = of_int \<lfloor>x\<rfloor>" by (rule sym)
  with assms(2) have "0 < \<lfloor>x\<rfloor>" by linarith
  then have "0 \<le> \<lfloor>x\<rfloor> - 1" by simp
  moreover have "x - 1 = of_int (\<lfloor>x\<rfloor> - 1)" using x by simp
  ultimately show ?thesis unfolding naturalNumber_def
    by (metis floor_of_int of_int_0_le_iff)
qed

lemma windowInv_empty: "windowInv (Some emptyRecord)"
  by (simp add: windowInv_def emptyRecord_def)

lemma windowInv_usesLeftNatural: "windowInv r \<Longrightarrow> usesLeftNatural r"
  by (auto simp: windowInv_def usesLeftNatural_def split: option.splits counter.splits)

text \<open>The record a check commits, from the record it found.\<close>

lemma committed_windowInv:
  assumes nat: "naturalNumber maxDay"
    and inv: "windowInv (Some stored)"
    and ok: "\<not> (0 < maxDay
               \<and> usesExhausted
                    (dailyUsesLeft (if 0 < maxDay then resetWindow clk maxDay stored else stored)))"
  shows "windowInv (Some
    (let record1 = (if 0 < maxDay then resetWindow clk maxDay stored else stored);
         record2 = (if 0 < minInt
                    then record1\<lparr>cooldownExpiresAt := Some (double (now clk + double (minInt * 1000)))\<rparr>
                    else record1)
     in if 0 < maxDay
        then record2\<lparr>dailyUsesLeft := decrement (dailyUsesLeft record2)\<rparr>
        else record2))"
proof (cases "0 < maxDay")
  case False
  with inv show ?thesis by (auto simp: windowInv_def Let_def split: option.splits counter.splits)
next
  case True
  let ?r1 = "resetWindow clk maxDay stored"
  have r1: "windowInv (Some ?r1)"
    using inv nat by (auto simp: resetWindow_def windowInv_def)
  have r1set: "dailyResetAt ?r1 \<noteq> None"
    by (auto simp: resetWindow_def truthy_def split: option.splits)
  from r1 r1set obtain x where x: "dailyUsesLeft ?r1 = Some (Finite x)" "naturalNumber x"
    by (auto simp: windowInv_def split: option.splits counter.splits)
  from ok True x have "\<not> x \<le> 0" by (simp add: usesExhausted_def)
  with x have "naturalNumber (x - 1)" by (simp add: naturalNumber_pred)
  with True x show ?thesis
    by (simp add: Let_def windowInv_def decrement_def)
qed

lemma checkRateLimit_windowInv:
  assumes nat: "naturalNumber maxDay"
    and inv: "\<And>rid. windowInv (records rid)"
  shows "windowInv (snd (checkRateLimit clk session commandName sc minInt maxDay records) rid)"
proof (cases "checkRateLimit clk session commandName sc minInt maxDay records")
  case (Pair result records')
  show ?thesis
  proof (cases result)
    case (Some h)
    with Pair have "records' = records" by (simp add: checkRateLimit_denied_records)
    with Pair inv show ?thesis by simp
  next
    case None
    show ?thesis
    proof (cases "getRecordKey session sc")
      case no: None
      then show ?thesis using inv by (simp add: checkRateLimit_def)
    next
      case (Some key)
      let ?rid = "scopeString sc @ '':'' @ key @ '':'' @ commandName"
      let ?stored = "case records ?rid of None \<Rightarrow> emptyRecord | Some r \<Rightarrow> r"
      have stored: "windowInv (Some ?stored)"
        using inv [of ?rid] windowInv_empty by (auto split: option.splits)
      show ?thesis
      proof (cases "key = []")
        case True
        with Some show ?thesis using inv by (simp add: checkRateLimit_def)
      next
        case False
        from Pair None Some False
        have ok: "\<not> (0 < maxDay
                     \<and> usesExhausted
                          (dailyUsesLeft
                             (if 0 < maxDay then resetWindow clk maxDay ?stored else ?stored)))"
          by (auto simp: checkRateLimit_def Let_def split: if_splits)
        from Pair None Some False
        have upd: "records' = records(?rid \<mapsto>
           (let record1 = (if 0 < maxDay then resetWindow clk maxDay ?stored else ?stored);
                record2 = (if 0 < minInt
                    then record1\<lparr>cooldownExpiresAt := Some (double (now clk + double (minInt * 1000)))\<rparr>
                    else record1)
            in if 0 < maxDay
               then record2\<lparr>dailyUsesLeft := decrement (dailyUsesLeft record2)\<rparr>
               else record2))"
          by (auto simp: checkRateLimit_def Let_def split: if_splits)
        show ?thesis
          using committed_windowInv [OF nat stored ok, of minInt] inv [of rid] Pair
          by (simp add: upd)
      qed
    qed
  qed
qed

lemma walk_windowInv:
  "list_all (\<lambda>level. naturalNumber (resolve session (maxDayUsage (config level)))) (chain cmd) \<Longrightarrow>
   (\<And>rid. windowInv (records rid)) \<Longrightarrow>
   windowInv (snd (walk hint clk session cmd records) rid)"
proof (induction hint clk session cmd records arbitrary: rid rule: walk.induct)
  case (1 hint clk session commandRecords)
  then show ?case by simp
next
  case (2 hint clk session n cfg p commandRecords)
  let ?minInt = "resolve session (minInterval cfg)"
  let ?maxDay = "resolve session (maxDayUsage cfg)"
  from "2.prems"(1) have nat: "naturalNumber ?maxDay"
    and rest: "list_all (\<lambda>level. naturalNumber (resolve session (maxDayUsage (config level))))
                 (chain p)"
    by auto
  show ?case
  proof (cases "?minInt = 0 \<and> ?maxDay = 0")
    case True
    with "2.IH"(1) [OF refl refl _ rest "2.prems"(2)] show ?thesis by (simp add: Let_def)
  next
    case False
    obtain result records' where chk:
      "checkRateLimit clk session (recordName n) (resolve session (scope cfg)) ?minInt ?maxDay
         commandRecords = (result, records')"
      by (cases "checkRateLimit clk session (recordName n) (resolve session (scope cfg)) ?minInt
                   ?maxDay commandRecords") auto
    have inv': "windowInv (records' r)" for r
      using checkRateLimit_windowInv [where records = commandRecords and rid = r and clk = clk
          and session = session and commandName = "recordName n"
          and sc = "resolve session (scope cfg)" and minInt = ?minInt, OF nat "2.prems"(2)] chk
      by simp
    show ?thesis
    proof (cases result)
      case None
      from "2.IH"(2) [OF refl refl False chk [symmetric] None rest inv']
      show ?thesis using False chk None by (auto simp: Let_def)
    next
      case (Some h)
      show ?thesis
      proof (cases "h = []")
        case True
        from True have "\<not> h \<noteq> []" by simp
        from "2.IH"(3) [OF refl refl False chk [symmetric] Some this rest inv']
        show ?thesis using False chk Some True by (auto simp: Let_def)
      next
        case nonempty: False
        then show ?thesis using False chk Some inv' by (auto simp: Let_def)
      qed
    qed
  qed
qed

lemma beforeExecute_windowInv:
  "quotasNatural (clk, session, command) \<Longrightarrow>
   (\<And>rid. windowInv (records rid)) \<Longrightarrow>
   windowInv (snd (beforeExecute cfg clk session command records) rid)"
  by (auto simp: beforeExecute_def quotasNatural_def intro: walk_windowInv split: Action.splits)

lemma runHook_windowInv:
  "list_all quotasNatural invocations \<Longrightarrow>
   (\<And>rid. windowInv (records rid)) \<Longrightarrow>
   windowInv (snd (runHook cfg invocations records) rid)"
proof (induction invocations arbitrary: records)
  case Nil
  then show ?case by simp
next
  case (Cons invocation invocations)
  obtain clk session command where i: "invocation = (clk, session, command)"
    by (cases invocation) auto
  from Cons.prems(1) i have q: "quotasNatural (clk, session, command)"
    and rest: "list_all quotasNatural invocations" by auto
  have "windowInv (snd (beforeExecute cfg clk session command records) r)" for r
    using beforeExecute_windowInv [OF q Cons.prems(2)] .
  from Cons.IH [OF rest this] show ?case
    by (simp add: i split_beta)
qed

text \<open>
  C10: if every invocation resolves \<^verbatim>\<open>maxDayUsage\<close> to a non-negative integer at every
  command of its chain, then after any sequence of invocations, starting from the empty
  records of a fresh plugin, every stored \<^verbatim>\<open>dailyUsesLeft\<close> is a non-negative integer
  (never negative, fractional or NaN).
\<close>

theorem uses_left_natural:
  assumes "list_all quotasNatural invocations"
  shows "usesLeftNatural (snd (runHook cfg invocations Map.empty) rid)"
proof -
  have "windowInv (Map.empty r)" for r :: string by (simp add: windowInv_def)
  from runHook_windowInv [OF assms this] show ?thesis by (rule windowInv_usesLeftNatural)
qed

theorem uses_left_natural_witness:
  "usesLeftNatural
     (snd (runHook exampleConfig
             [(exampleClock, exampleSession, exampleChild),
              (exampleClock, exampleSession, exampleParent),
              (exampleClock, exampleSession, exampleParent),
              (exampleClock, exampleSession, exampleParent)]
             Map.empty) ''user:U1:remind'')"
proof -
  have a: "list_all quotasNatural
             [(exampleClock, exampleSession, exampleChild),
              (exampleClock, exampleSession, exampleParent),
              (exampleClock, exampleSession, exampleParent),
              (exampleClock, exampleSession, exampleParent)]"
    by (simp add: quotasNatural_def naturalNumber_def exampleChild_def exampleParent_def)
  show ?thesis using uses_left_natural [OF a] .
qed

section \<open>The rule resolver\<close>

lemma ruleKey_eq:
  "ruleKey rule = ruleTypeString t @ '':'' @ c \<longleftrightarrow> type rule = t \<and> content rule = c"
  by (cases "type rule"; cases t) (auto simp: ruleKey_def ruleTypeString_def)

lemma foldl_rules_lookup:
  "foldl (\<lambda>rules rule. rules(ruleKey rule \<mapsto> ruleAction (action rule))) m rs k =
     (case find (\<lambda>rule. ruleKey rule = k) (rev rs) of
        None \<Rightarrow> m k
      | Some rule \<Rightarrow> Some (ruleAction (action rule)))"
  by (induction rs rule: rev_induct) auto

lemma buildRules_lookup:
  "buildRules cfg (ruleTypeString t @ '':'' @ c)
     = map_option (\<lambda>rule. ruleAction (action rule)) (lastRule cfg t c)"
proof -
  have "(\<lambda>rule. ruleKey rule = ruleTypeString t @ '':'' @ c)
        = (\<lambda>rule. type rule = t \<and> content rule = c)"
    by (rule ext) (rule ruleKey_eq)
  then show ?thesis
    unfolding buildRules_def lastRule_def foldl_rules_lookup
    by (simp split: option.splits)
qed

text \<open>
  For a session that has both a user and a channel identifier, the resolver follows the
  fixed precedence: the last rule listed for the user, else the last rule listed for the
  channel, else \<^verbatim>\<open>'limit'\<close>; the order in which user and channel rules are listed plays no
  part.
\<close>

theorem rule_precedence:
  assumes "userId session = Some u" and "channelId session = Some c"
  shows "getEffectiveAction (buildRules cfg) session =
           (case ruleFor cfg RuleUser (userId session) of
              Some a \<Rightarrow> a
            | None \<Rightarrow>
                (case ruleFor cfg RuleChannel (channelId session) of
                   Some a \<Rightarrow> a
                 | None \<Rightarrow> Limit))"
proof -
  have "buildRules cfg (''user:'' @ u) = ruleFor cfg RuleUser (Some u)"
    using buildRules_lookup [of cfg RuleUser u] by (simp add: ruleTypeString_def ruleFor_def)
  moreover have "buildRules cfg (''channel:'' @ c) = ruleFor cfg RuleChannel (Some c)"
    using buildRules_lookup [of cfg RuleChannel c] by (simp add: ruleTypeString_def ruleFor_def)
  moreover have "template (userId session) = u" "template (channelId session) = c"
    using assms by (simp_all add: template_def)
  ultimately show ?thesis
    unfolding getEffectiveAction_def using assms by (simp split: option.splits)
qed

theorem rule_precedence_witness:
  "getEffectiveAction (buildRules exampleIgnoreConfig) exampleSession = Ignore"
proof -
  have a: "userId exampleSession = Some ''U1''" "channelId exampleSession = Some ''c1''"
    by (simp_all add: exampleSession_def)
  have b: "ruleFor exampleIgnoreConfig RuleUser (userId exampleSession) = Some Ignore"
    by (simp add: ruleFor_def lastRule_def exampleIgnoreConfig_def exampleSession_def
        ruleAction_def)
  from rule_precedence [OF a, of exampleIgnoreConfig] b show ?thesis by simp
qed

text \<open>
  C5 fails on the code for a session without a user identifier: the lookup key is built by
  a template literal, which renders the missing identifier as the text \<^verbatim>\<open>undefined\<close>,
  so a rule listed for the user \<^verbatim>\<open>undefined\<close> applies to it. No rule entry matches the
  session's user (it has none) or its channel, yet the resolver answers \<^verbatim>\<open>'block'\<close>
  instead of \<^verbatim>\<open>'limit'\<close>.
\<close>

theorem undefined_user_matches_rule:
  "userId exampleNoUser = None
   \<and> ruleFor exampleUndefinedRule RuleUser (userId exampleNoUser) = None
   \<and> ruleFor exampleUndefinedRule RuleChannel (channelId exampleNoUser) = None
   \<and> getEffectiveAction (buildRules exampleUndefinedRule) exampleNoUser = Block"
  by (simp add: exampleUndefinedRule_def exampleNoUser_def ruleFor_def lastRule_def eval_defs)

end
